theory Spec2Isabelle
  imports Main "HOL-Library.Multiset" "HOL-Library.Word"
begin

section \<open>The ring descriptor of \<^verbatim>\<open>ring/model.go\<close>\<close>

subsection \<open>Data model\<close>

text \<open>
  \<^verbatim>\<open>type IngesterState int\<close> with \<^verbatim>\<open>Active = iota\<close> and \<^verbatim>\<open>Leaving\<close>.
  Go's \<^verbatim>\<open>int\<close> is 32 or 64 bits wide depending on the platform; the code only
  compares values of this type, so the carrier is modelled by the integers, which contain
  both ranges.
\<close>

type_synonym IngesterState = int

definition Active :: IngesterState where
  "Active = 0"

definition Leaving :: IngesterState where
  "Leaving = 1"

text \<open>
  The \<^verbatim>\<open>switch\<close> of \<^verbatim>\<open>IngesterState.String\<close>: two cases, and the \<^verbatim>\<open>return ""\<close>
  after it.
\<close>

definition IngesterState_String :: "IngesterState \<Rightarrow> string" where
  "IngesterState_String s =
     (if s = Active then ''Active''
      else if s = Leaving then ''Leaving''
      else '''')"

text \<open>\<^verbatim>\<open>time.Time\<close> values are only stored, never inspected: an integer clock reading.\<close>

type_synonym time = int

record IngesterDesc =
  Hostname :: string
  Timestamp :: time
  State :: IngesterState
  GRPCHostname :: string

record TokenDesc =
  Token :: "32 word"
  Ingester :: string

type_synonym TokenDescs = "TokenDesc list"

text \<open>
  \<^verbatim>\<open>Desc\<close>: the Go map is a partial function and the slice a list. Descriptors are
  created by \<^verbatim>\<open>newDesc\<close>, which allocates the map. The zero \<^verbatim>\<open>Desc\<close>, whose map is
  nil and on which the assignment in \<^verbatim>\<open>addIngester\<close> would panic, is not a value of this
  type. A nil slice and an empty slice are the same (empty) sequence here.
\<close>

record Desc =
  Ingesters :: "string \<rightharpoonup> IngesterDesc"
  Tokens :: TokenDescs

definition newDesc :: Desc where
  "newDesc = \<lparr>Ingesters = Map.empty, Tokens = []\<rparr>"

subsection \<open>\<^verbatim>\<open>sort.Sort\<close>\<close>

text \<open>
  \<^verbatim>\<open>addIngester\<close> ends with \<^verbatim>\<open>sort.Sort(d.Tokens)\<close>, a routine of Go's standard
  library that is not part of this repository. It is a parameter \<open>srt\<close> of the model.
  What its documentation promises, for the \<^verbatim>\<open>Less\<close> of \<^verbatim>\<open>TokenDescs\<close>
  (\<^verbatim>\<open>ts[i].Token < ts[j].Token\<close>), is that the slice is rearranged into ascending order
  of \<^verbatim>\<open>Token\<close>; it adds that "the sort is not guaranteed to be stable".
\<close>

definition sort_contract :: "(TokenDescs \<Rightarrow> TokenDescs) \<Rightarrow> bool" where
  "sort_contract srt \<longleftrightarrow> (\<forall>xs. mset (srt xs) = mset xs \<and> sorted (map Token (srt xs)))"

text \<open>Stability: entries with equal \<^verbatim>\<open>Token\<close> keep their relative order.\<close>

definition stable_sort :: "(TokenDescs \<Rightarrow> TokenDescs) \<Rightarrow> bool" where
  "stable_sort srt \<longleftrightarrow>
     (\<forall>xs v. filter (\<lambda>e. Token e = v) (srt xs) = filter (\<lambda>e. Token e = v) xs)"

text \<open>
  Two concrete routines that meet the contract. \<open>insertionSort\<close> is the stable sort
  by \<^verbatim>\<open>Token\<close>: the result of the library's
  \<^verbatim>\<open>for j := i; j > a && data.Less(j, j-1); j-- { data.Swap(j, j-1) }\<close>,
  which never moves an entry past one with an equal token.
\<close>

definition insertionSort :: "TokenDescs \<Rightarrow> TokenDescs" where
  "insertionSort xs = sort_key Token xs"

text \<open>
  \<open>gapSort\<close> is the way \<^verbatim>\<open>sort.Sort\<close> of several Go releases treats a slice of at most
  twelve elements: one pass
  \<^verbatim>\<open>for i := a + 6; i < b; i++ { if data.Less(i, i-6) { data.Swap(i, i-6) } }\<close>
  and then the insertion sort. Here \<open>a = 0\<close> and \<open>b\<close> is the length, and the pass is
  started at \<open>i = 6\<close>.
\<close>

function gapPass :: "TokenDescs \<Rightarrow> nat \<Rightarrow> TokenDescs" where
  "gapPass xs i =
     (if i < length xs \<and> 6 \<le> i then
        (if Token (xs ! i) < Token (xs ! (i - 6))
         then gapPass (xs[i := xs ! (i - 6), i - 6 := xs ! i]) (i + 1)
         else gapPass xs (i + 1))
      else xs)"
  by pat_completeness auto
termination
  by (relation "measure (\<lambda>(xs, i). length xs - i)") auto

declare gapPass.simps [simp del]

definition gapSort :: "TokenDescs \<Rightarrow> TokenDescs" where
  "gapSort xs = insertionSort (gapPass xs 6)"

subsection \<open>\<^verbatim>\<open>addIngester\<close> and \<^verbatim>\<open>removeIngester\<close>\<close>

text \<open>
  The loop \<^verbatim>\<open>for _, token := range tokens { d.Tokens = append(d.Tokens, TokenDesc{...}) }\<close>.
\<close>

fun appendTokens :: "TokenDescs \<Rightarrow> string \<Rightarrow> 32 word list \<Rightarrow> TokenDescs" where
  "appendTokens ts ident [] = ts"
| "appendTokens ts ident (token # rest) =
     appendTokens (ts @ [\<lparr>Token = token, Ingester = ident\<rparr>]) ident rest"

text \<open>
  \<^verbatim>\<open>addIngester\<close> mutates the descriptor; the model returns the new one. \<open>now\<close> is
  the value \<^verbatim>\<open>time.Now()\<close> returns during the call.
\<close>

definition addIngester ::
  "(TokenDescs \<Rightarrow> TokenDescs) \<Rightarrow> time \<Rightarrow> string \<Rightarrow> string \<Rightarrow> string \<Rightarrow> 32 word list \<Rightarrow>
     IngesterState \<Rightarrow> Desc \<Rightarrow> Desc" where
  "addIngester srt now ident hostname grpcHostname tokens state d =
     \<lparr>Ingesters = (Ingesters d)(ident \<mapsto>
        \<lparr>Hostname = hostname, Timestamp = now, State = state, GRPCHostname = grpcHostname\<rparr>),
      Tokens = srt (appendTokens (Tokens d) ident tokens)\<rparr>"

text \<open>
  The loop of \<^verbatim>\<open>removeIngester\<close>:
  \<^verbatim>\<open>for i := 0; i < len(d.Tokens); i++ { if d.Tokens[i].Ingester != id { output = append(output, d.Tokens[i]) } }\<close>.
\<close>

function removeLoop :: "TokenDescs \<Rightarrow> string \<Rightarrow> nat \<Rightarrow> TokenDescs \<Rightarrow> TokenDescs" where
  "removeLoop ts ident i out =
     (if i < length ts then
        (if Ingester (ts ! i) \<noteq> ident
         then removeLoop ts ident (i + 1) (out @ [ts ! i])
         else removeLoop ts ident (i + 1) out)
      else out)"
  by pat_completeness auto
termination
  by (relation "measure (\<lambda>(ts, ident, i, out). length ts - i)") auto

declare removeLoop.simps [simp del]

definition removeIngester :: "string \<Rightarrow> Desc \<Rightarrow> Desc" where
  "removeIngester ident d =
     \<lparr>Ingesters = (Ingesters d)(ident := None),
      Tokens = removeLoop (Tokens d) ident 0 []\<rparr>"

text \<open>The token entries one call of \<^verbatim>\<open>addIngester\<close> creates, in the order of the loop.\<close>

abbreviation entries :: "string \<Rightarrow> 32 word list \<Rightarrow> TokenDescs" where
  "entries ident tokens \<equiv> map (\<lambda>t. \<lparr>Token = t, Ingester = ident\<rparr>) tokens"

subsection \<open>Sequences of calls\<close>

text \<open>
  A call of one of the two methods with its arguments (and, for \<^verbatim>\<open>addIngester\<close>, the
  clock reading), and the descriptor a sequence of calls produces from the empty one.
\<close>

datatype call =
    AddIngester time string string string "32 word list" IngesterState
  | RemoveIngester string

fun apply_call :: "(TokenDescs \<Rightarrow> TokenDescs) \<Rightarrow> Desc \<Rightarrow> call \<Rightarrow> Desc" where
  "apply_call srt d (AddIngester now ident hostname grpcHostname tokens state) =
     addIngester srt now ident hostname grpcHostname tokens state d"
| "apply_call srt d (RemoveIngester ident) = removeIngester ident d"

definition run :: "(TokenDescs \<Rightarrow> TokenDescs) \<Rightarrow> call list \<Rightarrow> Desc" where
  "run srt calls = foldl (apply_call srt) newDesc calls"

text \<open>
  The specification's side of the invariant: the tokens assigned to each identity by a
  sequence of calls. A call of \<^verbatim>\<open>addIngester\<close> assigns its tokens to its identity, in
  addition to those the identity holds; a call of \<^verbatim>\<open>removeIngester\<close> takes all of them
  away.
\<close>

fun spec_assign :: "(string \<Rightarrow> 32 word multiset) \<Rightarrow> call \<Rightarrow> (string \<Rightarrow> 32 word multiset)" where
  "spec_assign a (AddIngester now ident hostname grpcHostname tokens state) =
     a(ident := a ident + mset tokens)"
| "spec_assign a (RemoveIngester ident) = a(ident := {#})"

definition spec_assigned :: "call list \<Rightarrow> string \<Rightarrow> 32 word multiset" where
  "spec_assigned calls = foldl spec_assign (\<lambda>_. {#}) calls"

text \<open>A sequence of calls used as an example: two joins, a leave, a second join.\<close>

definition example_calls :: "call list" where
  "example_calls =
     [AddIngester 1 ''a'' ''ha'' ''ga'' [30, 10] Active,
      AddIngester 2 ''b'' ''hb'' ''gb'' [40, 20] Active,
      RemoveIngester ''a'',
      AddIngester 3 ''a'' ''ha'' ''ga2'' [5] Leaving]"

text \<open>The tokens an identity holds in a descriptor.\<close>

definition tokensOf :: "Desc \<Rightarrow> string \<Rightarrow> 32 word multiset" where
  "tokensOf d ident = mset (map Token (filter (\<lambda>t. Ingester t = ident) (Tokens d)))"

text \<open>The invariant that every call maintains, \<open>a\<close> being the assignment so far.\<close>

definition ring_inv :: "Desc \<Rightarrow> (string \<Rightarrow> 32 word multiset) \<Rightarrow> bool" where
  "ring_inv d a \<longleftrightarrow>
     sorted (map Token (Tokens d)) \<and>
     (\<forall>t \<in> set (Tokens d). Ingester t \<in> dom (Ingesters d)) \<and>
     (\<forall>k. tokensOf d k = a k) \<and>
     (\<forall>k. k \<notin> dom (Ingesters d) \<longrightarrow> a k = {#})"

section \<open>The rule loader of \<^verbatim>\<open>ruler/ruler.go\<close>\<close>

text \<open>
  \<^verbatim>\<open>promql.ParseStmts\<close> returns values of the interface \<^verbatim>\<open>promql.Statement\<close>. The type
  switch of \<^verbatim>\<open>loadRules\<close> tells \<^verbatim>\<open>*promql.AlertStmt\<close> and \<^verbatim>\<open>*promql.RecordStmt\<close>, with
  the fields it reads, from everything else. Expressions and label sets are passed on
  unread: the type parameters \<open>'e\<close> and \<open>'l\<close>. The duration is an \<^verbatim>\<open>int64\<close>.
\<close>

datatype ('e, 'l) stmt =
    AlertStmt string 'e "64 word" 'l 'l
  | RecordStmt string 'e 'l
  | OtherStmt

text \<open>
  The values \<^verbatim>\<open>rules.NewAlertingRule\<close> and \<^verbatim>\<open>rules.NewRecordingRule\<close> build from their
  arguments.
\<close>

datatype ('e, 'l) rule =
    AlertingRule string 'e "64 word" 'l 'l
  | RecordingRule string 'e 'l

text \<open>A call ends in a panic or returns; what it returns is an error or the rules.\<close>

datatype failure = Panic string | Error string

text \<open>
  The inner loop, \<^verbatim>\<open>for _, stmt := range stmts\<close>, with the type switch; \<open>result\<close> is the
  slice the rules are appended to.
\<close>

fun loadStmts ::
  "('e, 'l) stmt list \<Rightarrow> ('e, 'l) rule list \<Rightarrow> failure + ('e, 'l) rule list" where
  "loadStmts [] result = Inr result"
| "loadStmts (AlertStmt name expr duration labels annotations # rest) result =
     loadStmts rest (result @ [AlertingRule name expr duration labels annotations])"
| "loadStmts (RecordStmt name expr labels # rest) result =
     loadStmts rest (result @ [RecordingRule name expr labels])"
| "loadStmts (OtherStmt # rest) result =
     Inl (Panic ''ruler.loadRules: unknown statement type'')"

text \<open>
  The outer loop, \<^verbatim>\<open>for fn, content := range files\<close>. Go visits the entries of a map in
  an order it does not specify; \<open>files\<close> is the list of the entries in the order of the
  visit. \<open>parse\<close> stands for \<^verbatim>\<open>promql.ParseStmts\<close>: the statements, or the text of its
  error.
\<close>

fun loadFiles ::
  "(string \<Rightarrow> string + ('e, 'l) stmt list) \<Rightarrow> (string \<times> string) list \<Rightarrow>
     ('e, 'l) rule list \<Rightarrow> failure + ('e, 'l) rule list" where
  "loadFiles parse [] result = Inr result"
| "loadFiles parse ((fn, content) # rest) result =
     (case parse content of
        Inl err \<Rightarrow> Inl (Error (''error parsing '' @ fn @ '': '' @ err))
      | Inr stmts \<Rightarrow>
          (case loadStmts stmts result of
             Inl f \<Rightarrow> Inl f
           | Inr result' \<Rightarrow> loadFiles parse rest result'))"

definition loadRules ::
  "(string \<Rightarrow> string + ('e, 'l) stmt list) \<Rightarrow> (string \<times> string) list \<Rightarrow>
     failure + ('e, 'l) rule list" where
  "loadRules parse files = loadFiles parse files []"

text \<open>
  For the statement of the claim: the statements of a file (none when it does not parse),
  and the rules of a list of statements, one for each alert and each recording statement.
\<close>

definition stmtsOf :: "(string \<Rightarrow> string + ('e, 'l) stmt list) \<Rightarrow> string \<Rightarrow> ('e, 'l) stmt list" where
  "stmtsOf parse content = (case parse content of Inl err \<Rightarrow> [] | Inr stmts \<Rightarrow> stmts)"

definition parses :: "(string \<Rightarrow> string + ('e, 'l) stmt list) \<Rightarrow> string \<Rightarrow> bool" where
  "parses parse content = (case parse content of Inl err \<Rightarrow> False | Inr stmts \<Rightarrow> True)"

fun rulesOf :: "('e, 'l) stmt list \<Rightarrow> ('e, 'l) rule list" where
  "rulesOf [] = []"
| "rulesOf (AlertStmt name expr duration labels annotations # rest) =
     AlertingRule name expr duration labels annotations # rulesOf rest"
| "rulesOf (RecordStmt name expr labels # rest) = RecordingRule name expr labels # rulesOf rest"
| "rulesOf (OtherStmt # rest) = rulesOf rest"

text \<open>A parser used as an example: three files, one of them with a statement of another kind.\<close>

fun example_parse :: "string \<Rightarrow> string + (nat, nat) stmt list" where
  "example_parse content =
     (if content = ''alerts'' then Inr [AlertStmt ''up'' 1 60 2 3, RecordStmt ''job:up'' 4 5]
      else if content = ''records'' then Inr [RecordStmt ''job:rate'' 6 7]
      else if content = ''eval'' then Inr [RecordStmt ''job:sum'' 8 9, OtherStmt]
      else Inl ''parse error'')"

section \<open>Properties of the ring descriptor\<close>

subsection \<open>The loops\<close>

lemma appendTokens_eq:
  "appendTokens ts ident tokens = ts @ map (\<lambda>t. \<lparr>Token = t, Ingester = ident\<rparr>) tokens"
  by (induction tokens arbitrary: ts) simp_all

lemma removeLoop_eq:
  "removeLoop ts ident i out = out @ filter (\<lambda>t. Ingester t \<noteq> ident) (drop i ts)"
proof (induction ts ident i out rule: removeLoop.induct)
  case (1 ts ident i out)
  show ?case
  proof (cases "i < length ts")
    case True
    then have d: "drop i ts = ts ! i # drop (i + 1) ts"
      by (simp add: Cons_nth_drop_Suc)
    have step: "removeLoop ts ident i out =
        (if Ingester (ts ! i) \<noteq> ident
         then removeLoop ts ident (i + 1) (out @ [ts ! i])
         else removeLoop ts ident (i + 1) out)"
      using True by (subst removeLoop.simps) simp
    show ?thesis
    proof (cases "Ingester (ts ! i) = ident")
      case True
      with 1(2) \<open>i < length ts\<close> step d show ?thesis by simp
    next
      case False
      with 1(1) \<open>i < length ts\<close> step d show ?thesis by simp
    qed
  next
    case False
    then show ?thesis
      by (subst removeLoop.simps) simp
  qed
qed

lemma Tokens_removeIngester:
  "Tokens (removeIngester ident d) = filter (\<lambda>t. Ingester t \<noteq> ident) (Tokens d)"
  by (simp add: removeIngester_def removeLoop_eq)

lemma Ingesters_removeIngester:
  "Ingesters (removeIngester ident d) = (Ingesters d)(ident := None)"
  by (simp add: removeIngester_def)

subsection \<open>The sorting routines\<close>

lemma insertionSort_contract: "sort_contract insertionSort"
  by (simp add: sort_contract_def insertionSort_def)

lemma insertionSort_stable: "stable_sort insertionSort"
  by (simp add: stable_sort_def insertionSort_def sort_key_stable)

lemma mset_gapPass: "mset (gapPass xs i) = mset xs"
proof (induction xs i rule: gapPass.induct)
  case (1 xs i)
  show ?case
  proof (cases "i < length xs \<and> 6 \<le> i")
    case True
    then have "i - 6 < length xs" and "i < length xs"
      by auto
    then have sw: "mset (xs[i := xs ! (i - 6), i - 6 := xs ! i]) = mset xs"
      by (rule mset_swap)
    show ?thesis
    proof (cases "Token (xs ! i) < Token (xs ! (i - 6))")
      case True
      with 1(1) \<open>i < length xs \<and> 6 \<le> i\<close> sw show ?thesis
        by (subst gapPass.simps) simp
    next
      case False
      with 1(2) \<open>i < length xs \<and> 6 \<le> i\<close> show ?thesis
        by (subst gapPass.simps) simp
    qed
  next
    case False
    then show ?thesis
      by (subst gapPass.simps) auto
  qed
qed

lemma gapSort_contract: "sort_contract gapSort"
  by (simp add: sort_contract_def gapSort_def insertionSort_def mset_gapPass)

lemma sort_contract_mset: "sort_contract srt \<Longrightarrow> mset (srt xs) = mset xs"
  by (simp add: sort_contract_def)

lemma sort_contract_set: "sort_contract srt \<Longrightarrow> set (srt xs) = set xs"
  by (metis sort_contract_mset set_mset_mset)

lemma sort_contract_length: "sort_contract srt \<Longrightarrow> length (srt xs) = length xs"
  by (metis sort_contract_mset size_mset)

lemma sort_contract_sorted: "sort_contract srt \<Longrightarrow> sorted (map Token (srt xs))"
  by (simp add: sort_contract_def)

subsection \<open>\<^verbatim>\<open>addIngester\<close>\<close>

lemma Ingesters_addIngester:
  "Ingesters (addIngester srt now ident h g tokens state d) =
     (Ingesters d)(ident \<mapsto> \<lparr>Hostname = h, Timestamp = now, State = state, GRPCHostname = g\<rparr>)"
  by (simp add: addIngester_def)

lemma Tokens_addIngester:
  "Tokens (addIngester srt now ident h g tokens state d) =
     srt (Tokens d @ entries ident tokens)"
  by (simp add: addIngester_def appendTokens_eq)

lemma mset_Tokens_addIngester:
  "sort_contract srt \<Longrightarrow>
   mset (Tokens (addIngester srt now ident h g tokens state d)) =
     mset (Tokens d) + mset (entries ident tokens)"
  by (simp add: Tokens_addIngester sort_contract_mset)

lemma set_Tokens_addIngester:
  "sort_contract srt \<Longrightarrow>
   set (Tokens (addIngester srt now ident h g tokens state d)) =
     set (Tokens d) \<union> set (entries ident tokens)"
  by (simp add: Tokens_addIngester sort_contract_set)

lemma sorted_Tokens_addIngester:
  "sort_contract srt \<Longrightarrow>
   sorted (map Token (Tokens (addIngester srt now ident h g tokens state d)))"
  by (simp add: Tokens_addIngester sort_contract_sorted)

lemma filter_entries:
  "filter (\<lambda>t. Ingester t = k) (entries ident tokens) =
     (if k = ident then entries ident tokens else [])"
  by (induction tokens) auto

lemma map_Token_entries: "map Token (entries ident tokens) = tokens"
  by (induction tokens) auto

lemma tokensOf_addIngester:
  assumes "sort_contract srt"
  shows "tokensOf (addIngester srt now ident h g tokens state d) k =
     tokensOf d k + (if k = ident then mset tokens else {#})"
proof -
  have "mset (filter (\<lambda>t. Ingester t = k) (Tokens (addIngester srt now ident h g tokens state d))) =
        mset (filter (\<lambda>t. Ingester t = k) (Tokens d)) +
        mset (filter (\<lambda>t. Ingester t = k) (entries ident tokens))"
    using assms by (simp add: Tokens_addIngester sort_contract_mset)
  then have "image_mset Token
        (mset (filter (\<lambda>t. Ingester t = k) (Tokens (addIngester srt now ident h g tokens state d)))) =
      image_mset Token (mset (filter (\<lambda>t. Ingester t = k) (Tokens d))) +
      image_mset Token (mset (filter (\<lambda>t. Ingester t = k) (entries ident tokens)))"
    by simp
  moreover have "image_mset Token (mset (filter (\<lambda>t. Ingester t = k) (entries ident tokens))) =
      (if k = ident then mset tokens else {#})"
    using map_Token_entries [of ident tokens]
    by (simp only: filter_entries mset_map [symmetric] split: if_splits) simp
  ultimately show ?thesis
    by (simp only: tokensOf_def mset_map [symmetric]) 
qed

lemma tokensOf_removeIngester:
  "tokensOf (removeIngester ident d) k = (if k = ident then {#} else tokensOf d k)"
proof -
  have "filter (\<lambda>t. Ingester t = k) (filter (\<lambda>t. Ingester t \<noteq> ident) (Tokens d)) =
        (if k = ident then [] else filter (\<lambda>t. Ingester t = k) (Tokens d))"
    by (induction "Tokens d") (auto intro: filter_cong)
  then show ?thesis
    by (simp add: tokensOf_def Tokens_removeIngester)
qed

lemma sorted_Tokens_removeIngester:
  "sorted (map Token (Tokens d)) \<Longrightarrow> sorted (map Token (Tokens (removeIngester ident d)))"
  by (simp add: Tokens_removeIngester sorted_filter)

subsection \<open>The invariant of the descriptor\<close>

lemma ring_inv_newDesc: "ring_inv newDesc (\<lambda>_. {#})"
  by (simp add: ring_inv_def newDesc_def tokensOf_def)

lemma ring_inv_step:
  assumes srt: "sort_contract srt" and inv: "ring_inv d a"
  shows "ring_inv (apply_call srt d c) (spec_assign a c)"
proof (cases c)
  case (AddIngester now ident h g tokens state)
  let ?d = "addIngester srt now ident h g tokens state d"
  have "sorted (map Token (Tokens ?d))"
    using srt by (rule sorted_Tokens_addIngester)
  moreover have "\<forall>t \<in> set (Tokens ?d). Ingester t \<in> dom (Ingesters ?d)"
    using inv srt by (auto simp: ring_inv_def set_Tokens_addIngester Ingesters_addIngester)
  moreover have "\<forall>k. tokensOf ?d k = (a(ident := a ident + mset tokens)) k"
    using inv srt by (simp add: ring_inv_def tokensOf_addIngester)
  moreover have "\<forall>k. k \<notin> dom (Ingesters ?d) \<longrightarrow> (a(ident := a ident + mset tokens)) k = {#}"
    using inv by (simp add: ring_inv_def Ingesters_addIngester)
  ultimately show ?thesis
    using AddIngester by (simp add: ring_inv_def)
next
  case (RemoveIngester ident)
  let ?d = "removeIngester ident d"
  have "sorted (map Token (Tokens ?d))"
    using inv by (simp add: ring_inv_def sorted_Tokens_removeIngester)
  moreover have "\<forall>t \<in> set (Tokens ?d). Ingester t \<in> dom (Ingesters ?d)"
    using inv by (auto simp: ring_inv_def Tokens_removeIngester Ingesters_removeIngester)
  moreover have "\<forall>k. tokensOf ?d k = (a(ident := {#})) k"
    using inv by (simp add: ring_inv_def tokensOf_removeIngester)
  moreover have "\<forall>k. k \<notin> dom (Ingesters ?d) \<longrightarrow> (a(ident := {#})) k = {#}"
    using inv by (simp add: ring_inv_def Ingesters_removeIngester)
  ultimately show ?thesis
    using RemoveIngester by (simp add: ring_inv_def)
qed

lemma ring_inv_run:
  "sort_contract srt \<Longrightarrow> ring_inv (run srt calls) (spec_assigned calls)"
proof (induction calls rule: rev_induct)
  case Nil
  show ?case
    by (simp add: run_def spec_assigned_def ring_inv_newDesc)
next
  case (snoc c calls)
  then have "ring_inv (apply_call srt (run srt calls) c) (spec_assign (spec_assigned calls) c)"
    by (simp add: ring_inv_step)
  then show ?case
    by (simp add: run_def spec_assigned_def)
qed

section \<open>The claims about the ring descriptor\<close>

text \<open>
  C1. Starting from the empty descriptor, after any sequence of calls of \<^verbatim>\<open>addIngester\<close>
  and \<^verbatim>\<open>removeIngester\<close>, \<open>Tokens\<close> is in ascending order of \<open>Token\<close>, the
  \<open>Ingester\<close> of every token entry is a key of \<open>Ingesters\<close>, and the tokens every identity
  holds in \<open>Tokens\<close> are exactly the tokens the calls have assigned to it, an identity
  that is not a key of the map holding none.
\<close>

theorem ring_invariant:
  assumes "sort_contract srt"
  shows "sorted (map Token (Tokens (run srt calls))) \<and>
     (\<forall>t \<in> set (Tokens (run srt calls)). Ingester t \<in> dom (Ingesters (run srt calls))) \<and>
     (\<forall>k. tokensOf (run srt calls) k = spec_assigned calls k) \<and>
     (\<forall>k. k \<notin> dom (Ingesters (run srt calls)) \<longrightarrow> spec_assigned calls k = {#})"
  using ring_inv_run [OF assms, of calls] by (simp add: ring_inv_def)

theorem ring_invariant_witness:
  "sort_contract insertionSort \<and>
   Tokens (run insertionSort example_calls) =
     [\<lparr>Token = 5, Ingester = ''a''\<rparr>, \<lparr>Token = 20, Ingester = ''b''\<rparr>,
      \<lparr>Token = 40, Ingester = ''b''\<rparr>] \<and>
   dom (Ingesters (run insertionSort example_calls)) = {''a'', ''b''} \<and>
   sorted (map Token (Tokens (run insertionSort example_calls))) \<and>
   set (map Ingester (Tokens (run insertionSort example_calls))) \<subseteq>
     dom (Ingesters (run insertionSort example_calls)) \<and>
   tokensOf (run insertionSort example_calls) ''b'' = spec_assigned example_calls ''b'' \<and>
   spec_assigned example_calls ''b'' = {#40, 20#} \<and>
   ''c'' \<notin> dom (Ingesters (run insertionSort example_calls)) \<and>
   spec_assigned example_calls ''c'' = {#}"
proof -
  have ev: "Tokens (run insertionSort example_calls) =
     [\<lparr>Token = 5, Ingester = ''a''\<rparr>, \<lparr>Token = 20, Ingester = ''b''\<rparr>,
      \<lparr>Token = 40, Ingester = ''b''\<rparr>]"
    by (simp add: example_calls_def run_def newDesc_def Tokens_addIngester
        Tokens_removeIngester insertionSort_def)
  have dm: "dom (Ingesters (run insertionSort example_calls)) = {''a'', ''b''}"
    by (auto simp: example_calls_def run_def newDesc_def Ingesters_addIngester
        Ingesters_removeIngester)
  have sa: "spec_assigned example_calls ''b'' = {#40, 20#}"
    by (simp add: example_calls_def spec_assigned_def)
  show ?thesis
    using ring_invariant [OF insertionSort_contract, of example_calls]
      insertionSort_contract ev dm sa
    by simp
qed

text \<open>
  C2. For every descriptor, \<^verbatim>\<open>addIngester\<close> stores for \<open>ident\<close> an entry with the given
  host names, the given state and the time of the call as heartbeat timestamp; it adds
  exactly \<open>length tokens\<close> token entries, one for each value of \<open>tokens\<close> and each with
  \<open>Ingester = ident\<close>, to the entries already there; and the resulting \<open>Tokens\<close> is in
  ascending order of \<open>Token\<close>. The other entries of the map are left as they were.
\<close>

theorem addIngester_effect:
  assumes "sort_contract srt"
  shows "Ingesters (addIngester srt now ident h g tokens state d) ident =
           Some \<lparr>Hostname = h, Timestamp = now, State = state, GRPCHostname = g\<rparr> \<and>
     (\<forall>k. k \<noteq> ident \<longrightarrow>
           Ingesters (addIngester srt now ident h g tokens state d) k = Ingesters d k) \<and>
     mset (Tokens (addIngester srt now ident h g tokens state d)) =
           mset (Tokens d) + mset (entries ident tokens) \<and>
     length (Tokens (addIngester srt now ident h g tokens state d)) =
           length (Tokens d) + length tokens \<and>
     sorted (map Token (Tokens (addIngester srt now ident h g tokens state d)))"
proof -
  have "Ingesters (addIngester srt now ident h g tokens state d) ident =
           Some \<lparr>Hostname = h, Timestamp = now, State = state, GRPCHostname = g\<rparr>"
    by (simp add: Ingesters_addIngester)
  moreover have "\<forall>k. k \<noteq> ident \<longrightarrow>
           Ingesters (addIngester srt now ident h g tokens state d) k = Ingesters d k"
    by (simp add: Ingesters_addIngester)
  moreover have "mset (Tokens (addIngester srt now ident h g tokens state d)) =
           mset (Tokens d) + mset (entries ident tokens)"
    using assms by (rule mset_Tokens_addIngester)
  moreover have "length (Tokens (addIngester srt now ident h g tokens state d)) =
           length (Tokens d) + length tokens"
    using assms by (simp add: Tokens_addIngester sort_contract_length)
  moreover have "sorted (map Token (Tokens (addIngester srt now ident h g tokens state d)))"
    using assms by (rule sorted_Tokens_addIngester)
  ultimately show ?thesis
    by blast
qed

theorem addIngester_effect_witness:
  "sort_contract insertionSort \<and>
   Ingesters (addIngester insertionSort 42 ''b'' ''hb'' ''gb'' [7, 3] Leaving
       \<lparr>Ingesters = [''a'' \<mapsto> \<lparr>Hostname = ''ha'', Timestamp = 1, State = Active,
                                 GRPCHostname = ''ga''\<rparr>],
        Tokens = [\<lparr>Token = 5, Ingester = ''a''\<rparr>]\<rparr>) ''b'' =
     Some \<lparr>Hostname = ''hb'', Timestamp = 42, State = Leaving, GRPCHostname = ''gb''\<rparr> \<and>
   Tokens (addIngester insertionSort 42 ''b'' ''hb'' ''gb'' [7, 3] Leaving
       \<lparr>Ingesters = [''a'' \<mapsto> \<lparr>Hostname = ''ha'', Timestamp = 1, State = Active,
                                 GRPCHostname = ''ga''\<rparr>],
        Tokens = [\<lparr>Token = 5, Ingester = ''a''\<rparr>]\<rparr>) =
     [\<lparr>Token = 3, Ingester = ''b''\<rparr>, \<lparr>Token = 5, Ingester = ''a''\<rparr>,
      \<lparr>Token = 7, Ingester = ''b''\<rparr>] \<and>
   sorted (map Token (Tokens (addIngester insertionSort 42 ''b'' ''hb'' ''gb'' [7, 3] Leaving
       \<lparr>Ingesters = [''a'' \<mapsto> \<lparr>Hostname = ''ha'', Timestamp = 1, State = Active,
                                 GRPCHostname = ''ga''\<rparr>],
        Tokens = [\<lparr>Token = 5, Ingester = ''a''\<rparr>]\<rparr>)))"
  using addIngester_effect [OF insertionSort_contract, of 42 "''b''" "''hb''" "''gb''"
      "[7, 3]" Leaving
      "\<lparr>Ingesters = [''a'' \<mapsto> \<lparr>Hostname = ''ha'', Timestamp = 1, State = Active,
                                 GRPCHostname = ''ga''\<rparr>],
        Tokens = [\<lparr>Token = 5, Ingester = ''a''\<rparr>]\<rparr>"]
    insertionSort_contract
  by (simp add: Tokens_addIngester insertionSort_def)

text \<open>
  C4. For every descriptor, \<^verbatim>\<open>removeIngester\<close> deletes the key \<open>ident\<close> from the map and
  leaves every other key as it was, and removes from \<open>Tokens\<close> exactly the entries whose
  \<open>Ingester\<close> is \<open>ident\<close>, the others keeping their relative order.
\<close>

theorem removeIngester_effect:
  "removeIngester ident d =
     \<lparr>Ingesters = (Ingesters d)(ident := None),
      Tokens = filter (\<lambda>t. Ingester t \<noteq> ident) (Tokens d)\<rparr>"
  by (simp add: removeIngester_def removeLoop_eq)

text \<open>
  C5. When \<open>ident\<close> is not a key of the map and no token entry carries it,
  \<^verbatim>\<open>removeIngester\<close> returns the descriptor it was given; and removing the same identity
  twice gives what removing it once gives, for every descriptor.
\<close>

theorem removeIngester_absent_idempotent:
  "(ident \<notin> dom (Ingesters d) \<and> (\<forall>t \<in> set (Tokens d). Ingester t \<noteq> ident) \<longrightarrow>
      removeIngester ident d = d) \<and>
   removeIngester ident (removeIngester ident d) = removeIngester ident d"
proof -
  have absent: "removeIngester ident d = d"
    if "ident \<notin> dom (Ingesters d)" and "\<forall>t \<in> set (Tokens d). Ingester t \<noteq> ident"
  proof -
    from that(1) have "(Ingesters d)(ident := None) = Ingesters d"
      by (auto simp: fun_upd_idem_iff)
    moreover from that(2) have "filter (\<lambda>t. Ingester t \<noteq> ident) (Tokens d) = Tokens d"
      by (simp add: filter_id_conv)
    ultimately show ?thesis
      by (simp add: removeIngester_def removeLoop_eq)
  qed
  have "removeIngester ident (removeIngester ident d) = removeIngester ident d"
    by (simp add: removeIngester_def removeLoop_eq)
  with absent show ?thesis by blast
qed

theorem removeIngester_absent_idempotent_witness:
  "''c'' \<notin> dom (Ingesters (run insertionSort example_calls)) \<and>
   ''c'' \<notin> set (map Ingester (Tokens (run insertionSort example_calls))) \<and>
   removeIngester ''c'' (run insertionSort example_calls) = run insertionSort example_calls \<and>
   Tokens (removeIngester ''b'' (run insertionSort example_calls)) =
     [\<lparr>Token = 5, Ingester = ''a''\<rparr>] \<and>
   removeIngester ''b'' (removeIngester ''b'' (run insertionSort example_calls)) =
     removeIngester ''b'' (run insertionSort example_calls)"
proof -
  have ev: "Tokens (run insertionSort example_calls) =
     [\<lparr>Token = 5, Ingester = ''a''\<rparr>, \<lparr>Token = 20, Ingester = ''b''\<rparr>,
      \<lparr>Token = 40, Ingester = ''b''\<rparr>]"
    by (simp add: example_calls_def run_def newDesc_def Tokens_addIngester
        Tokens_removeIngester insertionSort_def)
  have dm: "dom (Ingesters (run insertionSort example_calls)) = {''a'', ''b''}"
    by (auto simp: example_calls_def run_def newDesc_def Ingesters_addIngester
        Ingesters_removeIngester)
  have h1: "''c'' \<notin> dom (Ingesters (run insertionSort example_calls))"
    by (simp add: dm)
  have h2: "\<forall>t \<in> set (Tokens (run insertionSort example_calls)). Ingester t \<noteq> ''c''"
    by (simp add: ev)
  have rb: "Tokens (removeIngester ''b'' (run insertionSort example_calls)) =
     [\<lparr>Token = 5, Ingester = ''a''\<rparr>]"
    by (simp add: Tokens_removeIngester ev)
  show ?thesis
    using removeIngester_absent_idempotent [of "''c''" "run insertionSort example_calls"]
      removeIngester_absent_idempotent [of "''b''" "run insertionSort example_calls"]
      h1 h2 rb
    by auto
qed

text \<open>
  C3, as the code has it. Calling \<^verbatim>\<open>addIngester\<close> for an identity overwrites its entry
  in the map, whatever was there. The token entries the identity already has stay in
  \<open>Tokens\<close>, and the new ones are added to them. When \<^verbatim>\<open>removeIngester\<close> is called
  for the identity first, the identity's token entries afterwards are exactly the new
  ones, and registering in this way twice with the same token list gives the token
  multiset that registering once gives.
\<close>

theorem addIngester_reregister:
  assumes "sort_contract srt"
  shows "Ingesters (addIngester srt now ident h g tokens state d) ident =
       Some \<lparr>Hostname = h, Timestamp = now, State = state, GRPCHostname = g\<rparr> \<and>
     mset (filter (\<lambda>t. Ingester t = ident) (Tokens (addIngester srt now ident h g tokens state d))) =
       mset (filter (\<lambda>t. Ingester t = ident) (Tokens d)) + mset (entries ident tokens) \<and>
     mset (filter (\<lambda>t. Ingester t = ident)
         (Tokens (addIngester srt now ident h g tokens state (removeIngester ident d)))) =
       mset (entries ident tokens) \<and>
     mset (Tokens (addIngester srt now' ident h' g' tokens state'
         (removeIngester ident (addIngester srt now ident h g tokens state (removeIngester ident d))))) =
       mset (Tokens (addIngester srt now ident h g tokens state (removeIngester ident d)))"
proof -
  have own: "filter_mset (\<lambda>t. Ingester t = ident) (mset (entries ident tokens)) =
      mset (entries ident tokens)"
    by (induction tokens) simp_all
  have none: "filter_mset (\<lambda>t. Ingester t = ident)
      (filter_mset (\<lambda>t. Ingester t \<noteq> ident) (mset (Tokens d))) = {#}"
    by (simp add: filter_mset_eq_conv)
  have "Ingesters (addIngester srt now ident h g tokens state d) ident =
       Some \<lparr>Hostname = h, Timestamp = now, State = state, GRPCHostname = g\<rparr>"
    by (simp add: Ingesters_addIngester)
  moreover have "mset (filter (\<lambda>t. Ingester t = ident)
        (Tokens (addIngester srt now ident h g tokens state d))) =
       mset (filter (\<lambda>t. Ingester t = ident) (Tokens d)) + mset (entries ident tokens)"
    using assms own by (simp add: Tokens_addIngester sort_contract_mset)
  moreover have "mset (filter (\<lambda>t. Ingester t = ident)
         (Tokens (addIngester srt now ident h g tokens state (removeIngester ident d)))) =
       mset (entries ident tokens)"
    using assms own none
    by (simp add: Tokens_addIngester Tokens_removeIngester sort_contract_mset)
  moreover have "mset (Tokens (addIngester srt now' ident h' g' tokens state'
         (removeIngester ident (addIngester srt now ident h g tokens state (removeIngester ident d))))) =
       mset (Tokens (addIngester srt now ident h g tokens state (removeIngester ident d)))"
  proof -
    let ?rest = "filter (\<lambda>t. Ingester t \<noteq> ident) (Tokens d)"
    have "mset (filter (\<lambda>t. Ingester t \<noteq> ident) (srt (?rest @ entries ident tokens))) =
        filter_mset (\<lambda>t. Ingester t \<noteq> ident) (mset (?rest @ entries ident tokens))"
      using assms by (simp only: mset_filter sort_contract_mset)
    also have "\<dots> = mset (filter (\<lambda>t. Ingester t \<noteq> ident) (?rest @ entries ident tokens))"
      by (simp only: mset_filter)
    also have "filter (\<lambda>t. Ingester t \<noteq> ident) (?rest @ entries ident tokens) = ?rest"
      by (simp add: filter_empty_conv)
    finally have again: "mset (Tokens (removeIngester ident
        (addIngester srt now ident h g tokens state (removeIngester ident d)))) = mset ?rest"
      by (simp only: Tokens_addIngester Tokens_removeIngester)
    have "mset (Tokens (addIngester srt now' ident h' g' tokens state'
         (removeIngester ident (addIngester srt now ident h g tokens state (removeIngester ident d))))) =
        mset ?rest + mset (entries ident tokens)"
      using assms again by (simp only: mset_Tokens_addIngester)
    moreover have "mset (Tokens (addIngester srt now ident h g tokens state (removeIngester ident d))) =
        mset ?rest + mset (entries ident tokens)"
      using assms by (simp only: mset_Tokens_addIngester Tokens_removeIngester)
    ultimately show ?thesis
      by simp
  qed
  ultimately show ?thesis
    by blast
qed

theorem addIngester_reregister_witness:
  "sort_contract insertionSort \<and>
   Tokens (addIngester insertionSort 2 ''a'' ''h2'' ''g2'' [7, 3] Leaving
      (addIngester insertionSort 1 ''a'' ''h1'' ''g1'' [7, 3] Active newDesc)) =
     [\<lparr>Token = 3, Ingester = ''a''\<rparr>, \<lparr>Token = 3, Ingester = ''a''\<rparr>,
      \<lparr>Token = 7, Ingester = ''a''\<rparr>, \<lparr>Token = 7, Ingester = ''a''\<rparr>] \<and>
   Ingesters (addIngester insertionSort 2 ''a'' ''h2'' ''g2'' [7, 3] Leaving
      (addIngester insertionSort 1 ''a'' ''h1'' ''g1'' [7, 3] Active newDesc)) ''a'' =
     Some \<lparr>Hostname = ''h2'', Timestamp = 2, State = Leaving, GRPCHostname = ''g2''\<rparr> \<and>
   Tokens (addIngester insertionSort 2 ''a'' ''h2'' ''g2'' [7, 3] Leaving
      (removeIngester ''a''
        (addIngester insertionSort 1 ''a'' ''h1'' ''g1'' [7, 3] Active newDesc))) =
     [\<lparr>Token = 3, Ingester = ''a''\<rparr>, \<lparr>Token = 7, Ingester = ''a''\<rparr>]"
  using addIngester_reregister [OF insertionSort_contract, of 2 "''a''" "''h2''" "''g2''"
      "[7, 3]" Leaving "addIngester insertionSort 1 ''a'' ''h1'' ''g1'' [7, 3] Active newDesc"]
    insertionSort_contract
  by (simp add: Tokens_addIngester Tokens_removeIngester Ingesters_addIngester newDesc_def
      insertionSort_def)

text \<open>
  C3, as it is stated, fails. Registering the identity \<open>a\<close> with the token 1 and then
  with the token 2 leaves the entry for token 1 in \<open>Tokens\<close>; registering it twice with
  the token list \<open>[1]\<close> leaves two entries where one registration leaves one. (The lists
  are such that every routine meeting the contract of \<^verbatim>\<open>sort.Sort\<close> returns the same
  result on them.)
\<close>

theorem addIngester_stale_counterexample:
  "Tokens (addIngester insertionSort 2 ''a'' ''h'' ''g'' [2] Active
      (addIngester insertionSort 1 ''a'' ''h'' ''g'' [1] Active newDesc)) =
     [\<lparr>Token = 1, Ingester = ''a''\<rparr>, \<lparr>Token = 2, Ingester = ''a''\<rparr>] \<and>
   Tokens (addIngester insertionSort 1 ''a'' ''h'' ''g'' [1] Active newDesc) =
     [\<lparr>Token = 1, Ingester = ''a''\<rparr>] \<and>
   Tokens (addIngester insertionSort 2 ''a'' ''h'' ''g'' [1] Active
      (addIngester insertionSort 1 ''a'' ''h'' ''g'' [1] Active newDesc)) =
     [\<lparr>Token = 1, Ingester = ''a''\<rparr>, \<lparr>Token = 1, Ingester = ''a''\<rparr>] \<and>
   mset (Tokens (addIngester insertionSort 2 ''a'' ''h'' ''g'' [1] Active
      (addIngester insertionSort 1 ''a'' ''h'' ''g'' [1] Active newDesc))) \<noteq>
   mset (Tokens (addIngester insertionSort 1 ''a'' ''h'' ''g'' [1] Active newDesc))"
  by (simp add: Tokens_addIngester newDesc_def insertionSort_def)

text \<open>
  C6, as the code has it. When two ingesters are registered one after the other, the
  entries with a given token value in the resulting \<open>Tokens\<close> are those that were
  there, those of the first call and those of the second call: all of them are present.
  They stand in this order, the order of insertion, when the sorting routine is stable;
  the contract of \<^verbatim>\<open>sort.Sort\<close> does not say that it is.
\<close>

theorem addIngester_equal_tokens:
  assumes "sort_contract srt"
  shows "mset (filter (\<lambda>e. Token e = v)
        (Tokens (addIngester srt nb b hb gb tsb sb (addIngester srt na a ha ga tsa sa d)))) =
      mset (filter (\<lambda>e. Token e = v) (Tokens d @ entries a tsa @ entries b tsb)) \<and>
    (stable_sort srt \<longrightarrow>
      filter (\<lambda>e. Token e = v)
        (Tokens (addIngester srt nb b hb gb tsb sb (addIngester srt na a ha ga tsa sa d))) =
      filter (\<lambda>e. Token e = v) (Tokens d @ entries a tsa @ entries b tsb))"
proof -
  have "mset (filter (\<lambda>e. Token e = v)
        (Tokens (addIngester srt nb b hb gb tsb sb (addIngester srt na a ha ga tsa sa d)))) =
      mset (filter (\<lambda>e. Token e = v) (Tokens d @ entries a tsa @ entries b tsb))"
    using assms by (simp add: Tokens_addIngester sort_contract_mset)
  moreover have "filter (\<lambda>e. Token e = v)
        (Tokens (addIngester srt nb b hb gb tsb sb (addIngester srt na a ha ga tsa sa d))) =
      filter (\<lambda>e. Token e = v) (Tokens d @ entries a tsa @ entries b tsb)"
    if st: "stable_sort srt"
  proof -
    have keep: "filter (\<lambda>e. Token e = v) (srt xs) = filter (\<lambda>e. Token e = v) xs" for xs
      using st by (simp add: stable_sort_def)
    have "filter (\<lambda>e. Token e = v) (srt (srt (Tokens d @ entries a tsa) @ entries b tsb)) =
        filter (\<lambda>e. Token e = v) (srt (Tokens d @ entries a tsa)) @
        filter (\<lambda>e. Token e = v) (entries b tsb)"
      by (simp only: keep filter_append)
    also have "\<dots> = filter (\<lambda>e. Token e = v) (Tokens d @ entries a tsa) @
        filter (\<lambda>e. Token e = v) (entries b tsb)"
      by (simp only: keep)
    finally show ?thesis
      by (simp only: Tokens_addIngester filter_append append_assoc)
  qed
  ultimately show ?thesis
    by blast
qed

theorem addIngester_equal_tokens_witness:
  "sort_contract insertionSort \<and> stable_sort insertionSort \<and>
   filter (\<lambda>e. Token e = 5)
     (Tokens (addIngester insertionSort 2 ''b'' ''hb'' ''gb'' [5, 9, 9, 9, 9, 1] Active
        (addIngester insertionSort 1 ''a'' ''ha'' ''ga'' [5] Active newDesc))) =
     [\<lparr>Token = 5, Ingester = ''a''\<rparr>, \<lparr>Token = 5, Ingester = ''b''\<rparr>]"
  using addIngester_equal_tokens [OF insertionSort_contract, of 5 2 "''b''" "''hb''" "''gb''"
      "[5, 9, 9, 9, 9, 1]" Active 1 "''a''" "''ha''" "''ga''" "[5]" Active newDesc]
    insertionSort_contract insertionSort_stable
  by (simp add: newDesc_def)

text \<open>
  C6, as it is stated, fails. With \<open>gapSort\<close>, a routine that meets the contract of
  \<^verbatim>\<open>sort.Sort\<close> (lemma \<open>gapSort_contract\<close>), registering \<open>a\<close> with the token 5 and
  then \<open>b\<close> with the tokens 5, 9, 9, 9, 9, 1 puts the entry of \<open>b\<close> for the token 5
  before the entry of \<open>a\<close>, which was added first: the pass over the seven entries swaps
  the last one, token 1, with the first one, the entry of \<open>a\<close>, and the insertion sort
  then moves that entry to the left only as far as the entry of \<open>b\<close> with the same token.
\<close>

theorem addIngester_order_counterexample:
  "Tokens (addIngester gapSort 2 ''b'' ''hb'' ''gb'' [5, 9, 9, 9, 9, 1] Active
      (addIngester gapSort 1 ''a'' ''ha'' ''ga'' [5] Active newDesc)) =
     [\<lparr>Token = 1, Ingester = ''b''\<rparr>, \<lparr>Token = 5, Ingester = ''b''\<rparr>,
      \<lparr>Token = 5, Ingester = ''a''\<rparr>, \<lparr>Token = 9, Ingester = ''b''\<rparr>,
      \<lparr>Token = 9, Ingester = ''b''\<rparr>, \<lparr>Token = 9, Ingester = ''b''\<rparr>,
      \<lparr>Token = 9, Ingester = ''b''\<rparr>]"
  by (simp add: Tokens_addIngester newDesc_def gapSort_def insertionSort_def gapPass.simps)

text \<open>
  C7. For every descriptor and two different identities \<open>a\<close> and \<open>b\<close>, registering
  \<open>a\<close> and then \<open>b\<close>, or \<open>b\<close> and then \<open>a\<close>, gives a descriptor whose map holds the
  entries of both and whose \<open>Tokens\<close> holds the token entries of both, next to the
  entries that were there.
\<close>

theorem addIngester_both:
  assumes "sort_contract srt" and "a \<noteq> b"
  shows "Ingesters (addIngester srt nb b hb gb tsb sb (addIngester srt na a ha ga tsa sa d)) a =
       Some \<lparr>Hostname = ha, Timestamp = na, State = sa, GRPCHostname = ga\<rparr> \<and>
     Ingesters (addIngester srt nb b hb gb tsb sb (addIngester srt na a ha ga tsa sa d)) b =
       Some \<lparr>Hostname = hb, Timestamp = nb, State = sb, GRPCHostname = gb\<rparr> \<and>
     mset (Tokens (addIngester srt nb b hb gb tsb sb (addIngester srt na a ha ga tsa sa d))) =
       mset (Tokens d) + mset (entries a tsa) + mset (entries b tsb) \<and>
     Ingesters (addIngester srt na a ha ga tsa sa (addIngester srt nb b hb gb tsb sb d)) a =
       Some \<lparr>Hostname = ha, Timestamp = na, State = sa, GRPCHostname = ga\<rparr> \<and>
     Ingesters (addIngester srt na a ha ga tsa sa (addIngester srt nb b hb gb tsb sb d)) b =
       Some \<lparr>Hostname = hb, Timestamp = nb, State = sb, GRPCHostname = gb\<rparr> \<and>
     mset (Tokens (addIngester srt na a ha ga tsa sa (addIngester srt nb b hb gb tsb sb d))) =
       mset (Tokens d) + mset (entries a tsa) + mset (entries b tsb)"
  using assms by (simp add: Ingesters_addIngester Tokens_addIngester sort_contract_mset)

theorem addIngester_both_witness:
  "sort_contract insertionSort \<and> ''a'' \<noteq> ''b'' \<and>
   Tokens (addIngester insertionSort 2 ''b'' ''hb'' ''gb'' [20, 40] Active
      (addIngester insertionSort 1 ''a'' ''ha'' ''ga'' [30, 10] Active newDesc)) =
     [\<lparr>Token = 10, Ingester = ''a''\<rparr>, \<lparr>Token = 20, Ingester = ''b''\<rparr>,
      \<lparr>Token = 30, Ingester = ''a''\<rparr>, \<lparr>Token = 40, Ingester = ''b''\<rparr>] \<and>
   Ingesters (addIngester insertionSort 2 ''b'' ''hb'' ''gb'' [20, 40] Active
      (addIngester insertionSort 1 ''a'' ''ha'' ''ga'' [30, 10] Active newDesc)) ''a'' =
     Some \<lparr>Hostname = ''ha'', Timestamp = 1, State = Active, GRPCHostname = ''ga''\<rparr> \<and>
   Ingesters (addIngester insertionSort 2 ''b'' ''hb'' ''gb'' [20, 40] Active
      (addIngester insertionSort 1 ''a'' ''ha'' ''ga'' [30, 10] Active newDesc)) ''b'' =
     Some \<lparr>Hostname = ''hb'', Timestamp = 2, State = Active, GRPCHostname = ''gb''\<rparr>"
  using addIngester_both [OF insertionSort_contract, of "''a''" "''b''" 2 "''hb''" "''gb''"
      "[20, 40]" Active 1 "''ha''" "''ga''" "[30, 10]" Active newDesc]
    insertionSort_contract
  by (simp add: Tokens_addIngester newDesc_def insertionSort_def)

section \<open>The claim about the rule loader\<close>

lemma loadStmts_known:
  "OtherStmt \<notin> set stmts \<Longrightarrow> loadStmts stmts result = Inr (result @ rulesOf stmts)"
  by (induction stmts result rule: loadStmts.induct) simp_all

lemma loadStmts_other:
  "OtherStmt \<in> set stmts \<Longrightarrow>
   loadStmts stmts result = Inl (Panic ''ruler.loadRules: unknown statement type'')"
  by (induction stmts result rule: loadStmts.induct) simp_all

lemma loadStmts_Panic:
  "loadStmts stmts result = Inl f \<Longrightarrow>
   OtherStmt \<in> set stmts \<and> f = Panic ''ruler.loadRules: unknown statement type''"
  by (induction stmts result rule: loadStmts.induct) simp_all

lemma length_rulesOf: "OtherStmt \<notin> set stmts \<Longrightarrow> length (rulesOf stmts) = length stmts"
  by (induction stmts rule: rulesOf.induct) simp_all

lemma loadFiles_known:
  "\<forall>f \<in> set files. parses parse (snd f) \<and> OtherStmt \<notin> set (stmtsOf parse (snd f)) \<Longrightarrow>
   loadFiles parse files result =
     Inr (result @ concat (map (\<lambda>f. rulesOf (stmtsOf parse (snd f))) files))"
proof (induction files arbitrary: result)
  case Nil
  show ?case by simp
next
  case (Cons f files)
  obtain fn content where f: "f = (fn, content)"
    by (cases f)
  from Cons.prems f obtain stmts where p: "parse content = Inr stmts"
    by (auto simp: parses_def split: sum.splits)
  with Cons.prems f have "OtherStmt \<notin> set stmts"
    by (simp add: stmtsOf_def)
  then have "loadStmts stmts result = Inr (result @ rulesOf stmts)"
    by (rule loadStmts_known)
  moreover have "loadFiles parse files (result @ rulesOf stmts) =
      Inr ((result @ rulesOf stmts) @ concat (map (\<lambda>f. rulesOf (stmtsOf parse (snd f))) files))"
    using Cons.prems by (intro Cons.IH) simp
  ultimately show ?case
    using f p by (simp add: stmtsOf_def)
qed

lemma loadFiles_other:
  "\<forall>f \<in> set files. parses parse (snd f) \<Longrightarrow>
   \<exists>f \<in> set files. OtherStmt \<in> set (stmtsOf parse (snd f)) \<Longrightarrow>
   loadFiles parse files result = Inl (Panic ''ruler.loadRules: unknown statement type'')"
proof (induction files arbitrary: result)
  case Nil
  then show ?case by simp
next
  case (Cons f files)
  obtain fn content where f: "f = (fn, content)"
    by (cases f)
  from Cons.prems(1) f obtain stmts where p: "parse content = Inr stmts"
    by (auto simp: parses_def split: sum.splits)
  show ?case
  proof (cases "OtherStmt \<in> set stmts")
    case True
    then show ?thesis
      using f p by (simp add: loadStmts_other)
  next
    case False
    with Cons.prems(2) f p have "\<exists>f \<in> set files. OtherStmt \<in> set (stmtsOf parse (snd f))"
      by (simp add: stmtsOf_def)
    moreover from Cons.prems(1) have "\<forall>f \<in> set files. parses parse (snd f)"
      by simp
    ultimately have "loadFiles parse files (result @ rulesOf stmts) =
        Inl (Panic ''ruler.loadRules: unknown statement type'')"
      by (intro Cons.IH)
    then show ?thesis
      using f p False by (simp add: loadStmts_known)
  qed
qed

lemma loadFiles_Panic:
  "loadFiles parse files result = Inl (Panic msg) \<Longrightarrow>
   \<exists>f \<in> set files. parses parse (snd f) \<and> OtherStmt \<in> set (stmtsOf parse (snd f))"
proof (induction files arbitrary: result)
  case Nil
  then show ?case by simp
next
  case (Cons f files)
  obtain fn content where f: "f = (fn, content)"
    by (cases f)
  show ?case
  proof (cases "parse content")
    case (Inl err)
    with Cons.prems f show ?thesis by simp
  next
    case (Inr stmts)
    show ?thesis
    proof (cases "loadStmts stmts result")
      case (Inl g)
      then have "OtherStmt \<in> set stmts"
        by (simp add: loadStmts_Panic)
      then show ?thesis
        using f Inr by (simp add: parses_def stmtsOf_def)
    next
      case res: (Inr result')
      with Cons.prems f Inr have "loadFiles parse files result' = Inl (Panic msg)"
        by simp
      then have "\<exists>f \<in> set files. parses parse (snd f) \<and> OtherStmt \<in> set (stmtsOf parse (snd f))"
        by (rule Cons.IH)
      then show ?thesis
        by auto
    qed
  qed
qed

text \<open>
  C9. When every file parses and every statement is an alert or a recording statement,
  \<^verbatim>\<open>loadRules\<close> returns, without a panic or an error, the list of the rules of the
  statements, one rule for each statement, in the order of the files and of the
  statements. When every file parses and some statement is of another kind, it panics.
  And it panics only when a file that parses holds a statement of another kind. All
  this whatever the order in which the files are visited.
\<close>

theorem loadRules_panic:
  "((\<forall>f \<in> set files. parses parse (snd f) \<and> OtherStmt \<notin> set (stmtsOf parse (snd f))) \<longrightarrow>
      loadRules parse files = Inr (concat (map (\<lambda>f. rulesOf (stmtsOf parse (snd f))) files)) \<and>
      length (concat (map (\<lambda>f. rulesOf (stmtsOf parse (snd f))) files)) =
        sum_list (map (\<lambda>f. length (stmtsOf parse (snd f))) files)) \<and>
   ((\<forall>f \<in> set files. parses parse (snd f)) \<and>
    (\<exists>f \<in> set files. OtherStmt \<in> set (stmtsOf parse (snd f))) \<longrightarrow>
      loadRules parse files = Inl (Panic ''ruler.loadRules: unknown statement type'')) \<and>
   (\<forall>msg. loadRules parse files = Inl (Panic msg) \<longrightarrow>
      (\<exists>f \<in> set files. parses parse (snd f) \<and> OtherStmt \<in> set (stmtsOf parse (snd f))))"
proof -
  have "loadRules parse files = Inr (concat (map (\<lambda>f. rulesOf (stmtsOf parse (snd f))) files))"
    if "\<forall>f \<in> set files. parses parse (snd f) \<and> OtherStmt \<notin> set (stmtsOf parse (snd f))"
    using loadFiles_known [OF that, of "[]"] by (simp add: loadRules_def)
  moreover have "length (concat (map (\<lambda>f. rulesOf (stmtsOf parse (snd f))) files)) =
        sum_list (map (\<lambda>f. length (stmtsOf parse (snd f))) files)"
    if "\<forall>f \<in> set files. parses parse (snd f) \<and> OtherStmt \<notin> set (stmtsOf parse (snd f))"
    using that by (induction files) (simp_all add: length_rulesOf)
  moreover have "loadRules parse files = Inl (Panic ''ruler.loadRules: unknown statement type'')"
    if "\<forall>f \<in> set files. parses parse (snd f)"
      and "\<exists>f \<in> set files. OtherStmt \<in> set (stmtsOf parse (snd f))"
    using loadFiles_other [OF that, of "[]"] by (simp add: loadRules_def)
  moreover have "\<exists>f \<in> set files. parses parse (snd f) \<and> OtherStmt \<in> set (stmtsOf parse (snd f))"
    if "loadRules parse files = Inl (Panic msg)" for msg
    using that loadFiles_Panic [of parse files "[]" msg] by (simp add: loadRules_def)
  ultimately show ?thesis
    by blast
qed

theorem loadRules_panic_witness:
  "parses example_parse ''alerts'' \<and> parses example_parse ''records'' \<and>
   parses example_parse ''eval'' \<and>
   OtherStmt \<notin> set (stmtsOf example_parse ''alerts'') \<and>
   OtherStmt \<notin> set (stmtsOf example_parse ''records'') \<and>
   OtherStmt \<in> set (stmtsOf example_parse ''eval'') \<and>
   loadRules example_parse [(''a.rules'', ''alerts''), (''r.rules'', ''records'')] =
     Inr [AlertingRule ''up'' 1 60 2 3, RecordingRule ''job:up'' 4 5,
          RecordingRule ''job:rate'' 6 7] \<and>
   loadRules example_parse [(''a.rules'', ''alerts''), (''e.rules'', ''eval'')] =
     Inl (Panic ''ruler.loadRules: unknown statement type'') \<and>
   loadRules example_parse [(''x.rules'', ''???''), (''e.rules'', ''eval'')] =
     Inl (Error ''error parsing x.rules: parse error'')"
proof -
  have p: "parses example_parse ''alerts''" "parses example_parse ''records''"
      "parses example_parse ''eval''"
    by (simp_all add: parses_def)
  have s: "OtherStmt \<notin> set (stmtsOf example_parse ''alerts'')"
      "OtherStmt \<notin> set (stmtsOf example_parse ''records'')"
      "OtherStmt \<in> set (stmtsOf example_parse ''eval'')"
    by (simp_all add: stmtsOf_def)
  have r: "concat (map (\<lambda>f. rulesOf (stmtsOf example_parse (snd f)))
        [(''a.rules'', ''alerts''), (''r.rules'', ''records'')]) =
      [AlertingRule ''up'' 1 60 2 3, RecordingRule ''job:up'' 4 5, RecordingRule ''job:rate'' 6 7]"
    by (simp add: stmtsOf_def)
  have e: "loadRules example_parse [(''x.rules'', ''???''), (''e.rules'', ''eval'')] =
     Inl (Error ''error parsing x.rules: parse error'')"
    by (simp add: loadRules_def)
  show ?thesis
    using loadRules_panic [of "[(''a.rules'', ''alerts''), (''r.rules'', ''records'')]" example_parse]
      loadRules_panic [of "[(''a.rules'', ''alerts''), (''e.rules'', ''eval'')]" example_parse]
      p s r e
    by simp
qed

section \<open>The claim about \<^verbatim>\<open>IngesterState.String\<close>\<close>

text \<open>
  C10. \<^verbatim>\<open>IngesterState.String\<close> returns a string for every value of the carrier:
  "Active" for \<^verbatim>\<open>Active\<close>, which is 0, "Leaving" for \<^verbatim>\<open>Leaving\<close>, which is 1, and
  the empty string for every other value.
\<close>

theorem IngesterState_String_total:
  "Active = 0 \<and> Leaving = 1 \<and>
   IngesterState_String Active = ''Active'' \<and>
   IngesterState_String Leaving = ''Leaving'' \<and>
   (\<forall>s. s \<noteq> Active \<and> s \<noteq> Leaving \<longrightarrow> IngesterState_String s = '''')"
  by (simp add: IngesterState_String_def Active_def Leaving_def)

theorem IngesterState_String_total_witness:
  "(7::int) \<noteq> Active \<and> 7 \<noteq> Leaving \<and> IngesterState_String 7 = '''' \<and>
   IngesterState_String (- 1) = '''' \<and>
   IngesterState_String 0 = ''Active'' \<and> IngesterState_String 1 = ''Leaving''"
  using IngesterState_String_total by (simp add: Active_def Leaving_def)

end
